theory Spec2Isabelle
  imports Main "HOL-Library.AList"
begin

section \<open>JavaScript values and form data\<close>

text \<open>
  The pages receive the submitted form as a plain JavaScript object. The declared types
  (\<open>SignUpFormData\<close>, \<open>ProfileFormData\<close>) give every field the type \<open>string\<close>;
  the sign-in handler takes \<open>data: object\<close>. A property that is absent reads as
  \<open>undefined\<close>. Strings are lists of code units; the accented letters of the messages
  are written by their code (\<open>0xF3\<close> is o-acute, \<open>0xE1\<close> a-acute, \<open>0xED\<close> i-acute,
  \<open>0xEA\<close> e-circumflex).
\<close>

datatype jsval = JUndefined | JNull | JString string

type_synonym object = "(string \<times> jsval) list"

definition field :: "object \<Rightarrow> string \<Rightarrow> jsval" where
  "field d k = (case map_of d k of None \<Rightarrow> JUndefined | Some v \<Rightarrow> v)"

text \<open>JavaScript truthiness, as used by \<open>val ? ... : ...\<close> and \<open>old_password ? ... : ...\<close>.\<close>

fun truthy :: "jsval \<Rightarrow> bool" where
  "truthy (JString s) = (s \<noteq> [])"
| "truthy JUndefined = False"
| "truthy JNull = False"

section \<open>Errors\<close>

text \<open>
  A message is either one the pages pass to the validation library, or the library's own
  message for a value of the wrong type. An exception caught by a handler is a
  \<open>Yup.ValidationError\<close> with its list \<open>inner\<close> of (path, message), a \<open>TypeError\<close>
  raised by the page's own callback, or the rejection of the HTTP request.
\<close>

datatype message = Message string | NotType

datatype error = ValidationError "(string \<times> message) list" | TypeError | RequestError

section \<open>The validation library, as far as the schemas use it\<close>

text \<open>
  A test is the predicate a value has to satisfy together with the message reported when
  it does not. The built-in tests of a string schema skip \<open>undefined\<close> and \<open>null\<close>,
  except \<open>required\<close>, which rejects them and the empty string. The \<open>email\<close> test is
  \<open>matches\<close> with the library's e-mail pattern (the parameter \<open>rEmail\<close>) and lets the
  empty string through.
\<close>

type_synonym test = "(jsval \<Rightarrow> bool) \<times> string"

definition required :: "string \<Rightarrow> test" where
  "required m = ((\<lambda>v. case v of JString s \<Rightarrow> s \<noteq> [] | _ \<Rightarrow> False), m)"

definition email :: "(string \<Rightarrow> bool) \<Rightarrow> string \<Rightarrow> test" where
  "email rEmail m = ((\<lambda>v. case v of JString s \<Rightarrow> s = [] \<or> rEmail s | _ \<Rightarrow> True), m)"

definition min_length :: "nat \<Rightarrow> string \<Rightarrow> test" where
  "min_length n m = ((\<lambda>v. case v of JString s \<Rightarrow> n \<le> length s | _ \<Rightarrow> True), m)"

text \<open>
  \<open>Yup.string()\<close> with an optional \<open>oneOf\<close> list and the tests added to it, applied to
  one value with \<open>abortEarly: false\<close>. The type check and the \<open>oneOf\<close> check run first
  and both skip \<open>undefined\<close>; when one of them fails the other tests are not run.
  Otherwise every failing test reports its message, in the order the tests were added.
\<close>

definition string_schema :: "(jsval list \<times> string) option \<Rightarrow> test list \<Rightarrow> jsval \<Rightarrow> message list" where
  "string_schema oneOf tests v =
     (let initial =
            (if v = JNull then [NotType] else []) @
            (case oneOf of
               None \<Rightarrow> []
             | Some (valids, m) \<Rightarrow> if v = JUndefined \<or> v \<in> set valids then [] else [Message m])
      in if initial \<noteq> [] then initial
         else map (\<lambda>t. Message (snd t)) (filter (\<lambda>t. \<not> fst t v) tests))"

text \<open>
  \<open>Yup.object().shape(...)\<close>: the errors of all fields, each under the name of its field.
  Validation resolves with the data when there is none and rejects with a
  \<open>ValidationError\<close> holding them otherwise. The entries are listed in the order in
  which the schema writes its fields; the library may report the fields in another
  order, and the results are read by path only.
\<close>

definition shape :: "(string \<times> message list) list \<Rightarrow> (string \<times> message) list" where
  "shape fields = concat (map (\<lambda>(p, ms). map (Pair p) ms) fields)"

definition settle :: "object \<Rightarrow> (string \<times> message) list \<Rightarrow> error + object" where
  "settle d inner = (if inner = [] then Inr d else Inl (ValidationError inner))"

text \<open>
  Modelled from the spec: \<open>utils/getValidationErrors\<close> is imported by the three pages and
  is not among the sources. The spec says that validation errors are mapped back onto
  the individual form fields by field name: the result is an object with, for each path
  of \<open>inner\<close>, the message reported for it (a later message for the same path replaces
  the earlier one, as an assignment to an object property does).
\<close>

definition getValidationErrors :: "(string \<times> message) list \<Rightarrow> (string \<times> message) list" where
  "getValidationErrors inner = fold (\<lambda>(p, m) errs. AList.update p m errs) inner []"

section \<open>What a handler does\<close>

text \<open>
  A handler is modelled by the sequence of calls it makes on its collaborators, in
  order: the form handle (\<open>setErrors\<close>), the schema (\<open>validate\<close>), the HTTP client,
  the toast hook, the router history and the authentication hook. The handlers run as
  the \<open>onSubmit\<close> and \<open>onChange\<close> callbacks of the rendered form, so \<open>formRef.current\<close>
  is the form handle. The outcome of the HTTP request is an input of the model.
\<close>

datatype toast_type = success | error | info

record toast =
  type :: "toast_type option"
  title :: string
  description :: "string option"

datatype http_method = POST | PUT | PATCH

datatype form_entry = FileEntry string | StringEntry string

datatype body = Json object | FormData "(string \<times> form_entry) list"

datatype 'r response = Fulfilled 'r | Rejected

datatype 'r action =
    Validate
  | SetErrors "(string \<times> message) list"
  | Request http_method string body
  | AddToast toast
  | HistoryPush string
  | UpdateUser 'r

section \<open>Sign-in page\<close>

definition SignIn_schema :: "(string \<Rightarrow> bool) \<Rightarrow> object \<Rightarrow> error + object" where
  "SignIn_schema rEmail d =
     settle d (shape
       [(''email'', string_schema None
            [email rEmail (''Digite um email v'' @ [CHR 0xE1] @ ''lido''),
             required (''Email Obrigat'' @ [CHR 0xF3] @ ''rio'')]
            (field d ''email'')),
        (''password'', string_schema None
            [required (''Senha obrigat'' @ [CHR 0xF3] @ ''ria'')]
            (field d ''password''))])"

text \<open>
  The handler sets the error of the field \<open>name\<close>, validates, and in its \<open>catch\<close> hands
  whatever was thrown to \<open>getValidationErrors\<close>. Something thrown that is no validation
  error has no \<open>inner\<close>, so the \<open>catch\<close> block itself throws and makes no further call;
  the sign-in schema never does that.
\<close>

definition SignIn_handleSubmit :: "(string \<Rightarrow> bool) \<Rightarrow> object \<Rightarrow> 'r action list" where
  "SignIn_handleSubmit rEmail d =
     SetErrors [(''name'', Message (''Nome obrigat'' @ [CHR 0xF3] @ ''rio''))] #
     Validate #
     (case SignIn_schema rEmail d of
        Inr v \<Rightarrow> []
      | Inl (ValidationError inner) \<Rightarrow> [SetErrors (getValidationErrors inner)]
      | Inl e \<Rightarrow> [])"

section \<open>Sign-up page\<close>

definition SignUp_schema :: "(string \<Rightarrow> bool) \<Rightarrow> object \<Rightarrow> error + object" where
  "SignUp_schema rEmail d =
     settle d (shape
       [(''name'', string_schema None
            [required (''Nome Obrigat'' @ [CHR 0xF3] @ ''rio'')]
            (field d ''name'')),
        (''email'', string_schema None
            [email rEmail (''Digite um email v'' @ [CHR 0xE1] @ ''lido''),
             required (''Email Obrigat'' @ [CHR 0xF3] @ ''rio'')]
            (field d ''email'')),
        (''password'', string_schema None
            [min_length 6 (''No m'' @ [CHR 0xED] @ ''nimo 6 d'' @ [CHR 0xED] @ ''gitos'')]
            (field d ''password''))])"

definition success_toast :: toast where
  "success_toast =
     \<lparr>type = Some success, title = ''Cadastro realizado'',
      description = Some (''Voc'' @ [CHR 0xEA] @ '' j'' @ [CHR 0xE1] @
                          '' pode fazer seu logon no goBarber'')\<rparr>"

definition error_toast :: toast where
  "error_toast =
     \<lparr>type = Some error, title = ''Erro ao cadastrar perfil'',
      description =
        Some ''Ocorreu um erro ao tentar cadastrar seu perfil, tente novamente''\<rparr>"

text \<open>
  The \<open>catch\<close> block shared, word for word, by the sign-up and the profile handler: a
  validation error goes to the form fields and the handler returns, anything else
  becomes the error toast.
\<close>

definition catch_submit :: "error \<Rightarrow> 'r action list" where
  "catch_submit e =
     (case e of
        ValidationError inner \<Rightarrow> [SetErrors (getValidationErrors inner)]
      | _ \<Rightarrow> [AddToast error_toast])"

definition SignUp_handleSubmit ::
  "(string \<Rightarrow> bool) \<Rightarrow> object \<Rightarrow> 'r response \<Rightarrow> 'r action list" where
  "SignUp_handleSubmit rEmail d resp =
     Validate #
     (case SignUp_schema rEmail d of
        Inl e \<Rightarrow> catch_submit e
      | Inr v \<Rightarrow>
          Request POST ''/users'' (Json d) #
          (case resp of
             Rejected \<Rightarrow> catch_submit RequestError
           | Fulfilled r \<Rightarrow> [AddToast success_toast, HistoryPush ''/dashboard'']))"

section \<open>Profile page\<close>

text \<open>
  The condition of \<open>old_password\<close> is the page's own callback \<open>val => !!val.length\<close>,
  called with the value of \<open>password\<close>: reading \<open>length\<close> of \<open>undefined\<close> or \<open>null\<close>
  throws a \<open>TypeError\<close>. The schema of \<open>old_password\<close> is resolved before any field is
  validated, so the exception leaves \<open>validate\<close> in place of a validation result.
\<close>

fun is_password :: "jsval \<Rightarrow> error + bool" where
  "is_password (JString s) = Inr (length s \<noteq> 0)"
| "is_password JUndefined = Inl TypeError"
| "is_password JNull = Inl TypeError"

text \<open>The test \<open>len\<close> of \<open>password\<close>: \<open>val => (val ? val.length >= 6 : true)\<close>.\<close>

definition len_test :: "string \<Rightarrow> test" where
  "len_test m = ((\<lambda>v. if truthy v then (case v of JString s \<Rightarrow> 6 \<le> length s | _ \<Rightarrow> True) else True), m)"

definition Profile_schema :: "(string \<Rightarrow> bool) \<Rightarrow> object \<Rightarrow> error + object" where
  "Profile_schema rEmail d =
     (case is_password (field d ''password'') of
        Inl e \<Rightarrow> Inl e
      | Inr supplied \<Rightarrow>
          settle d (shape
            [(''name'', string_schema None
                 [required (''Nome Obrigat'' @ [CHR 0xF3] @ ''rio'')]
                 (field d ''name'')),
             (''email'', string_schema None
                 [email rEmail (''Digite um email v'' @ [CHR 0xE1] @ ''lido''),
                  required (''Email Obrigat'' @ [CHR 0xF3] @ ''rio'')]
                 (field d ''email'')),
             (''old_password'', string_schema None
                 (if supplied
                  then [required (''Obrigat'' @ [CHR 0xF3] @ ''rio ao informar a nova senha'')]
                  else [])
                 (field d ''old_password'')),
             (''password'', string_schema None
                 [len_test ''Senha maior que 6 caracteres'']
                 (field d ''password'')),
             (''password_confirmation'', string_schema
                 (Some ([field d ''password'', JUndefined], ''Confirme a nova senha''))
                 []
                 (field d ''password_confirmation''))]))"

definition formData :: "object \<Rightarrow> object" where
  "formData d =
     [(''name'', field d ''name''), (''email'', field d ''email'')] @
     (if truthy (field d ''old_password'')
      then [(''old_password'', field d ''old_password''),
            (''password'', field d ''password''),
            (''password_confirmation'', field d ''password_confirmation'')]
      else [])"

definition Profile_handleSubmit ::
  "(string \<Rightarrow> bool) \<Rightarrow> object \<Rightarrow> 'r response \<Rightarrow> 'r action list" where
  "Profile_handleSubmit rEmail d resp =
     Validate #
     (case Profile_schema rEmail d of
        Inl e \<Rightarrow> catch_submit e
      | Inr v \<Rightarrow>
          Request PUT ''/profile'' (Json (formData d)) #
          (case resp of
             Rejected \<Rightarrow> catch_submit RequestError
           | Fulfilled r \<Rightarrow> [AddToast success_toast, HistoryPush ''/dashboard'']))"

text \<open>
  The avatar handler: \<open>e.target.files\<close> is a list of files or \<open>null\<close>. The first file
  (\<open>undefined\<close> for an empty list, which \<open>append\<close> stores as the string
  \<open>undefined\<close>) is sent; the promise has a \<open>then\<close> and no \<open>catch\<close>, so a rejected
  request is followed by no call at all.
\<close>

definition handleAvatarChange :: "string list option \<Rightarrow> 'r response \<Rightarrow> 'r action list" where
  "handleAvatarChange files resp =
     (case files of
        None \<Rightarrow> []
      | Some fs \<Rightarrow>
          Request PATCH ''/users/avatar''
            (FormData [(''avatar'', case fs of [] \<Rightarrow> StringEntry ''undefined'' | f # rest \<Rightarrow> FileEntry f)]) #
          (case resp of
             Rejected \<Rightarrow> []
           | Fulfilled r \<Rightarrow>
               [UpdateUser r,
                AddToast \<lparr>type = Some success, title = ''Avatar atualizado'', description = None\<rparr>]))"

section \<open>Reading a run of a handler\<close>

text \<open>
  The requests, the toasts and the field errors of a run, in order; the messages a
  validation result reports for one path; and the test whether a run ended by giving a
  field its message, with no request and no toast.
\<close>

fun requests :: "'r action list \<Rightarrow> (http_method \<times> string \<times> body) list" where
  "requests [] = []"
| "requests (Request m url b # as) = (m, url, b) # requests as"
| "requests (a # as) = requests as"

fun toasts :: "'r action list \<Rightarrow> toast list" where
  "toasts [] = []"
| "toasts (AddToast t # as) = t # toasts as"
| "toasts (a # as) = toasts as"

fun field_errors :: "'r action list \<Rightarrow> (string \<times> message) list list" where
  "field_errors [] = []"
| "field_errors (SetErrors e # as) = e # field_errors as"
| "field_errors (a # as) = field_errors as"

definition errors_at :: "string \<Rightarrow> error + object \<Rightarrow> message list" where
  "errors_at path r =
     (case r of
        Inl (ValidationError inner) \<Rightarrow> map snd (filter (\<lambda>e. fst e = path) inner)
      | _ \<Rightarrow> [])"

definition rejected_at :: "string \<Rightarrow> message \<Rightarrow> 'r action list \<Rightarrow> bool" where
  "rejected_at path m tr =
     (requests tr = [] \<and> toasts tr = [] \<and>
      (case last tr of SetErrors errs \<Rightarrow> map_of errs path = Some m | _ \<Rightarrow> False))"

text \<open>A field is missing when the object has no such property or the input was left empty.\<close>

definition missing :: "jsval \<Rightarrow> bool" where
  "missing v = (v = JUndefined \<or> v = JString [])"

text \<open>
  A stand-in for the library's e-mail pattern, for the places where a handler is run on
  a concrete submission: an address is anything with an at sign.
\<close>

definition sample_rEmail :: "string \<Rightarrow> bool" where
  "sample_rEmail s = (CHR ''@'' \<in> set s)"

text \<open>Submissions on which the handlers are run below.\<close>

definition sample_profile :: object where
  "sample_profile =
     [(''name'', JString ''Ana''), (''email'', JString ''a@b.com''), (''old_password'', JString ''old''),
      (''password'', JString ''''), (''password_confirmation'', JString '''')]"

definition sample_signup :: object where
  "sample_signup =
     [(''name'', JString ''Ana''), (''email'', JString ''a@b.com''), (''password'', JString ''123456'')]"

definition sample_mismatch :: object where
  "sample_mismatch =
     [(''name'', JString ''Ana''), (''email'', JString ''a@b.com''), (''old_password'', JString ''old''),
      (''password'', JString ''abcdef''), (''password_confirmation'', JString ''abcdeg'')]"

definition sample_no_confirmation :: object where
  "sample_no_confirmation =
     [(''name'', JString ''Ana''), (''email'', JString ''a@b.com''), (''old_password'', JString ''old''),
      (''password'', JString ''abcdef'')]"

definition sample_no_old :: object where
  "sample_no_old =
     [(''name'', JString ''Ana''), (''email'', JString ''a@b.com''), (''old_password'', JString ''''),
      (''password'', JString ''abcdef''), (''password_confirmation'', JString ''abcdef'')]"

definition sample_no_name :: object where
  "sample_no_name =
     [(''name'', JString ''''), (''email'', JString ''a@b.com''), (''password'', JString ''123456'')]"

definition sample_only_password :: object where
  "sample_only_password = [(''password'', JString ''abcdef'')]"

section \<open>The toast component and its timer\<close>

text \<open>
  Modelled from the spec: the type \<open>ToastMessage\<close> is declared in \<open>hooks/toast\<close>, which
  is not among the sources. By the spec a message has an identifier unique per message,
  a kind, a title and an optional description; the component reads \<open>toast.id\<close>,
  \<open>toast.type\<close>, \<open>toast.title\<close> and \<open>toast.description\<close>.
\<close>

record ToastMessage = toast +
  toast_id :: string

text \<open>
  The browser's pending timeouts: the handle \<open>setTimeout\<close> returned, the time (in
  milliseconds) at which the callback is due, and the callback, which for this component
  is always \<open>() => removeToast(toast.id)\<close> and is kept as the identifier it removes.
  The world is the clock, the list of the hook, the pending timeouts, the rendered
  \<open>Toast\<close> elements (each with the handle its cleanup function closes over) and, for
  observation, the identifiers \<open>removeToast\<close> was called with.
\<close>

record timer =
  handle :: nat
  due :: nat
  target :: string

record world =
  now :: nat
  messages :: "ToastMessage list"
  timers :: "timer list"
  next_handle :: nat
  mounted :: "(string \<times> nat) list"
  calls :: "string list"

definition initial :: world where
  "initial = \<lparr>now = 0, messages = [], timers = [], next_handle = 0, mounted = [], calls = []\<rparr>"

definition setTimeout :: "string \<Rightarrow> nat \<Rightarrow> world \<Rightarrow> nat \<times> world" where
  "setTimeout i delay w =
     (next_handle w,
      w\<lparr>timers := timers w @ [\<lparr>handle = next_handle w, due = now w + delay, target = i\<rparr>],
        next_handle := Suc (next_handle w)\<rparr>)"

definition clearTimeout :: "nat \<Rightarrow> world \<Rightarrow> world" where
  "clearTimeout h w = w\<lparr>timers := filter (\<lambda>tm. handle tm \<noteq> h) (timers w)\<rparr>"

text \<open>
  Modelled from the spec: \<open>addToast\<close> of \<open>hooks/toast\<close>, which is not among the
  sources. By the spec it assigns a fresh unique identifier and appends the message to
  the list; here the message comes with its identifier, and that it is fresh is a
  condition on the runs.
\<close>

definition addToast :: "ToastMessage \<Rightarrow> world \<Rightarrow> world" where
  "addToast t w = w\<lparr>messages := messages w @ [t]\<rparr>"

text \<open>
  Modelled from the spec: \<open>removeToast\<close> of \<open>hooks/toast\<close>, which is not among the
  sources. By the spec it removes the entry with that identifier if present and is a
  no-op otherwise. The call is recorded in \<open>calls\<close>.
\<close>

definition removeToast :: "string \<Rightarrow> world \<Rightarrow> world" where
  "removeToast i w =
     w\<lparr>messages := filter (\<lambda>m. toast_id m \<noteq> i) (messages w), calls := calls w @ [i]\<rparr>"

text \<open>
  The effect of \<open>Toast\<close> runs when the element is rendered for the first time: it starts
  a timeout of 3000 ms for \<open>removeToast(toast.id)\<close>. (Its dependencies are \<open>toast.id\<close>
  and \<open>removeToast\<close>; neither changes during the life of an element, so the effect runs
  once.) The function it returns runs when the element is torn down and clears that
  timeout.
\<close>

definition Toast_effect :: "ToastMessage \<Rightarrow> world \<Rightarrow> world" where
  "Toast_effect t w =
     (case setTimeout (toast_id t) 3000 w of
        (h, w') \<Rightarrow> w'\<lparr>mounted := mounted w' @ [(toast_id t, h)]\<rparr>)"

definition Toast_cleanup :: "nat \<Rightarrow> world \<Rightarrow> world" where
  "Toast_cleanup h w = clearTimeout h w"

text \<open>
  Modelled from the spec: the container that renders one \<open>Toast\<close> for each message of
  the list is not among the sources. After the list has changed, the elements whose
  message is no longer in it are torn down, which runs their cleanup. \<open>dismiss\<close> is what
  both the close button and the timer callback do: \<open>removeToast\<close>, followed by that
  rendering.
\<close>

definition unmount_removed :: "world \<Rightarrow> world" where
  "unmount_removed w =
     (let shown = set (map toast_id (messages w));
          gone = filter (\<lambda>c. fst c \<notin> shown) (mounted w)
      in (fold (\<lambda>c. Toast_cleanup (snd c)) gone w)
           \<lparr>mounted := filter (\<lambda>c. fst c \<in> shown) (mounted w)\<rparr>)"

definition dismiss :: "string \<Rightarrow> world \<Rightarrow> world" where
  "dismiss i w = unmount_removed (removeToast i w)"

text \<open>
  A timeout that is due fires if it is still pending, and is then no longer pending.
  When the clock advances, the timeouts that have become due fire in the order in which
  they were started (all have the same delay, so this is the order of their due times).
\<close>

definition fire :: "timer \<Rightarrow> world \<Rightarrow> world" where
  "fire tm w =
     (if tm \<in> set (timers w)
      then dismiss (target tm) (w\<lparr>timers := filter (\<lambda>x. handle x \<noteq> handle tm) (timers w)\<rparr>)
      else w)"

definition elapse :: "nat \<Rightarrow> world \<Rightarrow> world" where
  "elapse n w =
     (let w' = w\<lparr>now := now w + n\<rparr>
      in fold fire (filter (\<lambda>tm. due tm \<le> now w') (timers w')) w')"

text \<open>
  What can happen: a message is added and its element rendered, the close button of a
  rendered element is clicked, a rendered element is torn down while its message stays
  in the list (the part of the page that holds it goes away), time passes.
\<close>

datatype event = Add ToastMessage | Click string | Unmount string | Elapse nat

text \<open>Tearing down the element of one message runs its cleanup and leaves the list alone.\<close>

definition unmount :: "string \<Rightarrow> world \<Rightarrow> world" where
  "unmount i w =
     (fold (\<lambda>c. Toast_cleanup (snd c)) (filter (\<lambda>c. fst c = i) (mounted w)) w)
       \<lparr>mounted := filter (\<lambda>c. fst c \<noteq> i) (mounted w)\<rparr>"

fun step :: "event \<Rightarrow> world \<Rightarrow> world" where
  "step (Add t) w = Toast_effect t (addToast t w)"
| "step (Click i) w = (if i \<in> set (map fst (mounted w)) then dismiss i w else w)"
| "step (Unmount i) w = unmount i w"
| "step (Elapse n) w = elapse n w"

fun run :: "event list \<Rightarrow> world \<Rightarrow> world" where
  "run [] w = w"
| "run (e # es) w = run es (step e w)"

text \<open>
  Identifiers are unique per message: a run is admissible when no message is added under
  an identifier that is in the list at that moment. A run leaves an identifier alone when
  it neither adds a message under it, nor clicks its close button, nor tears its element
  down.
\<close>

fun adds_fresh :: "world \<Rightarrow> event list \<Rightarrow> bool" where
  "adds_fresh w [] = True"
| "adds_fresh w (Add t # es) =
     (toast_id t \<notin> set (map toast_id (messages w)) \<and> adds_fresh (step (Add t) w) es)"
| "adds_fresh w (e # es) = adds_fresh (step e w) es"

fun never_adds :: "string \<Rightarrow> event list \<Rightarrow> bool" where
  "never_adds i [] = True"
| "never_adds i (Add t # es) = (toast_id t \<noteq> i \<and> never_adds i es)"
| "never_adds i (e # es) = never_adds i es"

fun leaves_alone :: "string \<Rightarrow> event list \<Rightarrow> bool" where
  "leaves_alone i [] = True"
| "leaves_alone i (Add t # es) = (toast_id t \<noteq> i \<and> leaves_alone i es)"
| "leaves_alone i (Click j # es) = (j \<noteq> i \<and> leaves_alone i es)"
| "leaves_alone i (Unmount j # es) = (j \<noteq> i \<and> leaves_alone i es)"
| "leaves_alone i (Elapse n # es) = leaves_alone i es"

text \<open>
  The worlds that runs produce are consistent: identifiers are unique, every rendered
  element belongs to a message of the list and has its own timeout handle, and every
  pending timeout belongs to a rendered element. In a consistent world \<open>dismiss\<close> comes
  to \<open>drop_toast\<close>: the message, its element and its timeout go together.
\<close>

definition ids :: "world \<Rightarrow> string list" where
  "ids w = map toast_id (messages w)"

definition consistent :: "world \<Rightarrow> bool" where
  "consistent w =
     (distinct (ids w) \<and>
      set (map fst (mounted w)) \<subseteq> set (ids w) \<and>
      distinct (map fst (mounted w)) \<and>
      distinct (map snd (mounted w)) \<and>
      (\<forall>c \<in> set (mounted w). snd c < next_handle w) \<and>
      distinct (map handle (timers w)) \<and>
      (\<forall>tm \<in> set (timers w). (target tm, handle tm) \<in> set (mounted w)))"

definition drop_toast :: "string \<Rightarrow> world \<Rightarrow> world" where
  "drop_toast i w =
     w\<lparr>messages := filter (\<lambda>m. toast_id m \<noteq> i) (messages w),
       calls := calls w @ [i],
       timers := filter (\<lambda>tm. target tm \<noteq> i) (timers w),
       mounted := filter (\<lambda>c. fst c \<noteq> i) (mounted w)\<rparr>"

text \<open>
  A message \<open>t\<close> whose element started the timeout \<open>tm\<close> is tracked through a run:
  before the timeout is due the message is in the list, the timeout is pending and
  \<open>removeToast\<close> has been called for it \<open>c\<close> times, as before it was shown; from then on
  the message is gone and there has been exactly one call more.
\<close>

definition tracked :: "ToastMessage \<Rightarrow> timer \<Rightarrow> nat \<Rightarrow> world \<Rightarrow> bool" where
  "tracked t tm c w =
     (consistent w \<and>
      (if now w < due tm
       then t \<in> set (messages w) \<and> tm \<in> set (timers w) \<and> count_list (calls w) (toast_id t) = c
       else toast_id t \<notin> set (ids w) \<and> count_list (calls w) (toast_id t) = Suc c))"

text \<open>
  Three messages and a run on which the countdown is followed: \<open>B\<close> is shown, half a
  second later \<open>A\<close>, a second later \<open>C\<close>, and another second passes.
\<close>

definition toast_A :: ToastMessage where
  "toast_A = \<lparr>type = Some success, title = ''Avatar atualizado'', description = None, toast_id = ''A''\<rparr>"

definition toast_B :: ToastMessage where
  "toast_B = \<lparr>type = Some error, title = ''Erro ao cadastrar perfil'', description = None, toast_id = ''B''\<rparr>"

definition toast_C :: ToastMessage where
  "toast_C = \<lparr>type = None, title = ''Cadastro realizado'', description = None, toast_id = ''C''\<rparr>"

definition sample_history :: "event list" where
  "sample_history = [Add toast_B, Elapse 500]"

definition sample_wait :: "event list" where
  "sample_wait = [Elapse 1000, Add toast_C, Elapse 1000]"

definition sample_later :: "event list" where
  "sample_later = [Elapse 5000, Click ''A'']"

definition sample_before :: world where
  "sample_before = run sample_history initial"

definition sample_shown :: world where
  "sample_shown = run sample_wait (step (Add toast_A) sample_before)"

definition sample_expired :: world where
  "sample_expired = run [Elapse 3000] (step (Add toast_A) sample_before)"

section \<open>Sign-in: what the handler does\<close>

lemmas schema_defs =
  settle_def shape_def string_schema_def email_def required_def min_length_def len_test_def

text \<open>
  C3. For every submission on the sign-in screen, whatever the data, the first call of the
  handler sets the error of the field \<open>name\<close>, with the message the source gives it, and
  the call of the validation comes second.
\<close>

theorem SignIn_sets_name_error_first:
  "take 2 (SignIn_handleSubmit rEmail d) =
     [SetErrors [(''name'', Message (''Nome obrigat'' @ [CHR 0xF3] @ ''rio''))], Validate]"
  by (simp add: SignIn_handleSubmit_def)

text \<open>
  C1, as stated, fails: the submission \<open>{email: "a@b.com", password: "secret1"}\<close> passes
  the sign-in schema and the handler issues no request, not one.
\<close>

theorem SignIn_valid_one_request_counterexample:
  "SignIn_schema sample_rEmail [(''email'', JString ''a@b.com''), (''password'', JString ''secret1'')]
     = Inr [(''email'', JString ''a@b.com''), (''password'', JString ''secret1'')]
   \<and> length (requests (SignIn_handleSubmit sample_rEmail
         [(''email'', JString ''a@b.com''), (''password'', JString ''secret1'')] :: unit action list)) \<noteq> 1"
  by (simp add: SignIn_handleSubmit_def SignIn_schema_def schema_defs field_def sample_rEmail_def)

text \<open>
  C1, amended. For every sign-in submission whose data passes the sign-in schema, the
  handler issues no outbound HTTP request and shows no notification: the validation is
  its last call.
\<close>

theorem SignIn_valid_no_request:
  "SignIn_schema rEmail d = Inr v \<Longrightarrow>
   requests (SignIn_handleSubmit rEmail d) = []
   \<and> toasts (SignIn_handleSubmit rEmail d) = []
   \<and> last (SignIn_handleSubmit rEmail d) = Validate"
  by (simp add: SignIn_handleSubmit_def)

theorem SignIn_valid_no_request_witness:
  "SignIn_schema sample_rEmail [(''email'', JString ''a@b.com''), (''password'', JString ''secret1'')]
     = Inr [(''email'', JString ''a@b.com''), (''password'', JString ''secret1'')]
   \<and> requests (SignIn_handleSubmit sample_rEmail
         [(''email'', JString ''a@b.com''), (''password'', JString ''secret1'')] :: unit action list) = []
   \<and> toasts (SignIn_handleSubmit sample_rEmail
         [(''email'', JString ''a@b.com''), (''password'', JString ''secret1'')] :: unit action list) = []
   \<and> last (SignIn_handleSubmit sample_rEmail
         [(''email'', JString ''a@b.com''), (''password'', JString ''secret1'')] :: unit action list)
       = Validate"
proof -
  have valid:
    "SignIn_schema sample_rEmail [(''email'', JString ''a@b.com''), (''password'', JString ''secret1'')]
       = Inr [(''email'', JString ''a@b.com''), (''password'', JString ''secret1'')]"
    by (simp add: SignIn_schema_def schema_defs field_def sample_rEmail_def)
  show ?thesis
    using valid SignIn_valid_no_request [OF valid] by simp
qed

section \<open>Sign-up and profile: one request after validation\<close>

text \<open>
  C2, as stated, fails on the sign-in screen: a submission accepted by the sign-in schema
  is followed by no request.
\<close>

theorem accepted_then_one_request_counterexample:
  "SignIn_schema sample_rEmail [(''email'', JString ''user@example.com''), (''password'', JString ''x'')]
     = Inr [(''email'', JString ''user@example.com''), (''password'', JString ''x'')]
   \<and> requests (SignIn_handleSubmit sample_rEmail
         [(''email'', JString ''user@example.com''), (''password'', JString ''x'')] :: unit action list) = []"
  by (simp add: SignIn_handleSubmit_def SignIn_schema_def schema_defs field_def sample_rEmail_def)

text \<open>
  C2, amended. For every submission on the sign-up or the profile screen that the
  screen's schema accepts, the call that follows the validation is an outbound HTTP
  request (\<open>POST /users\<close> with the data, \<open>PUT /profile\<close> with the form data) and the
  handler issues no other request, whatever the outcome of that one; the sign-in handler
  issues no request.
\<close>

theorem accepted_then_one_request:
  "(SignUp_schema rEmail d = Inr v \<longrightarrow>
      (\<exists>rest. SignUp_handleSubmit rEmail d resp =
                 Validate # Request POST ''/users'' (Json d) # rest \<and> requests rest = []))
   \<and> (Profile_schema rEmail d = Inr v \<longrightarrow>
      (\<exists>rest. Profile_handleSubmit rEmail d resp =
                 Validate # Request PUT ''/profile'' (Json (formData d)) # rest \<and> requests rest = []))
   \<and> requests (SignIn_handleSubmit rEmail d) = []"
  by (cases resp)
     (auto simp add: SignUp_handleSubmit_def Profile_handleSubmit_def SignIn_handleSubmit_def
        catch_submit_def split: sum.split error.split)

lemma sample_profile_accepted: "Profile_schema sample_rEmail sample_profile = Inr sample_profile"
  by (simp add: Profile_schema_def schema_defs field_def sample_rEmail_def sample_profile_def)

lemma sample_signup_accepted: "SignUp_schema sample_rEmail sample_signup = Inr sample_signup"
  by (simp add: SignUp_schema_def schema_defs field_def sample_rEmail_def sample_signup_def)

theorem accepted_then_one_request_witness:
  "SignUp_schema sample_rEmail sample_signup = Inr sample_signup
   \<and> Profile_schema sample_rEmail sample_profile = Inr sample_profile
   \<and> requests (SignUp_handleSubmit sample_rEmail sample_signup (Rejected :: unit response))
       = [(POST, ''/users'', Json sample_signup)]
   \<and> requests (Profile_handleSubmit sample_rEmail sample_profile (Rejected :: unit response))
       = [(PUT, ''/profile'', Json (formData sample_profile))]"
  using accepted_then_one_request [of sample_rEmail sample_profile sample_profile "Rejected :: unit response"]
        accepted_then_one_request [of sample_rEmail sample_signup sample_signup "Rejected :: unit response"]
        sample_profile_accepted sample_signup_accepted
  by auto

section \<open>The profile schema\<close>

text \<open>
  C4, as stated, fails: with the new password \<open>abcdef\<close> supplied and no
  \<open>password_confirmation\<close> in the submission, the confirmation does not equal the
  password and the schema accepts. The \<open>oneOf\<close> list of the source names \<open>undefined\<close>
  beside the reference to \<open>password\<close>.
\<close>

theorem Profile_confirmation_absent_counterexample:
  "field sample_no_confirmation ''password'' = JString ''abcdef''
   \<and> field sample_no_confirmation ''password_confirmation'' \<noteq> field sample_no_confirmation ''password''
   \<and> Profile_schema sample_rEmail sample_no_confirmation = Inr sample_no_confirmation"
  by (simp add: Profile_schema_def schema_defs field_def sample_rEmail_def sample_no_confirmation_def)

text \<open>
  C4, amended. When a new password is supplied (the field \<open>password\<close> is a non-empty
  string), the schema reports no error for \<open>password_confirmation\<close> exactly when it
  equals the new password or is absent; any other confirmation gets the error
  \<open>Confirme a nova senha\<close> and the submission is rejected with a validation error. For
  a string other than the password that error is the only one of the field.
\<close>

theorem Profile_confirmation_equal_or_absent:
  "field d ''password'' = JString p \<Longrightarrow> p \<noteq> [] \<Longrightarrow>
   (errors_at ''password_confirmation'' (Profile_schema rEmail d) = []) =
     (field d ''password_confirmation'' = JString p \<or> field d ''password_confirmation'' = JUndefined)
   \<and> (field d ''password_confirmation'' \<noteq> JString p \<and>
       field d ''password_confirmation'' \<noteq> JUndefined \<longrightarrow>
         Message ''Confirme a nova senha''
           \<in> set (errors_at ''password_confirmation'' (Profile_schema rEmail d)) \<and>
         (\<exists>inner. Profile_schema rEmail d = Inl (ValidationError inner)))
   \<and> (\<forall>c. field d ''password_confirmation'' = JString c \<and> c \<noteq> p \<longrightarrow>
         errors_at ''password_confirmation'' (Profile_schema rEmail d) =
           [Message ''Confirme a nova senha''])"
  by (cases "field d ''password_confirmation''")
     (auto simp add: Profile_schema_def errors_at_def schema_defs Let_def)

theorem Profile_confirmation_equal_or_absent_witness:
  "field sample_mismatch ''password'' = JString ''abcdef'' \<and> ''abcdef'' \<noteq> []
   \<and> field sample_mismatch ''password_confirmation'' = JString ''abcdeg''
   \<and> errors_at ''password_confirmation'' (Profile_schema sample_rEmail sample_mismatch) =
        [Message ''Confirme a nova senha'']
   \<and> Profile_schema sample_rEmail sample_mismatch =
        Inl (ValidationError [(''password_confirmation'', Message ''Confirme a nova senha'')])
   \<and> field sample_no_confirmation ''password'' = JString ''abcdef''
   \<and> field sample_no_confirmation ''password_confirmation'' = JUndefined
   \<and> errors_at ''password_confirmation'' (Profile_schema sample_rEmail sample_no_confirmation) = []
   \<and> field sample_no_old ''password'' = JString ''abcdef''
   \<and> field sample_no_old ''password_confirmation'' = JString ''abcdef''
   \<and> errors_at ''password_confirmation'' (Profile_schema sample_rEmail sample_no_old) = []"
proof -
  have p: "field sample_mismatch ''password'' = JString ''abcdef''"
    and c: "field sample_mismatch ''password_confirmation'' = JString ''abcdeg''"
    by (simp_all add: field_def sample_mismatch_def)
  have p': "field sample_no_confirmation ''password'' = JString ''abcdef''"
    and c': "field sample_no_confirmation ''password_confirmation'' = JUndefined"
    by (simp_all add: field_def sample_no_confirmation_def)
  have p'': "field sample_no_old ''password'' = JString ''abcdef''"
    and c'': "field sample_no_old ''password_confirmation'' = JString ''abcdef''"
    by (simp_all add: field_def sample_no_old_def)
  have ne: "''abcdef'' \<noteq> []" by simp
  have r: "Profile_schema sample_rEmail sample_mismatch =
        Inl (ValidationError [(''password_confirmation'', Message ''Confirme a nova senha'')])"
    by (simp add: Profile_schema_def schema_defs field_def sample_rEmail_def sample_mismatch_def)
  have ne_c: "''abcdeg'' \<noteq> ''abcdef''" by simp
  from Profile_confirmation_equal_or_absent [OF p ne, of sample_rEmail] c ne_c
  have e1: "errors_at ''password_confirmation'' (Profile_schema sample_rEmail sample_mismatch) =
        [Message ''Confirme a nova senha'']"
    by blast
  from Profile_confirmation_equal_or_absent [OF p' ne, of sample_rEmail] c'
  have e2: "errors_at ''password_confirmation'' (Profile_schema sample_rEmail sample_no_confirmation) = []"
    by blast
  from Profile_confirmation_equal_or_absent [OF p'' ne, of sample_rEmail] c''
  have e3: "errors_at ''password_confirmation'' (Profile_schema sample_rEmail sample_no_old) = []"
    by blast
  from p ne c e1 r p' c' e2 p'' c'' e3 show ?thesis
    by (intro conjI)
qed

text \<open>
  C5. With the field \<open>password\<close> a string, the schema reports the error of the
  \<open>then\<close> branch (required when a new password is given) for \<open>old_password\<close> exactly
  when the password is non-empty and \<open>old_password\<close> is empty or absent: a previous
  password is required if and only if a new one is supplied. (\<open>null\<close> is no string and is
  reported as such in both cases.)
\<close>

theorem Profile_old_password_required_iff:
  "field d ''password'' = JString p \<Longrightarrow>
   errors_at ''old_password'' (Profile_schema rEmail d) =
     (if field d ''old_password'' = JNull then [NotType]
      else if p \<noteq> [] \<and> missing (field d ''old_password'')
      then [Message (''Obrigat'' @ [CHR 0xF3] @ ''rio ao informar a nova senha'')]
      else [])"
  by (cases "field d ''old_password''")
     (auto simp add: Profile_schema_def errors_at_def schema_defs missing_def Let_def)

theorem Profile_old_password_required_iff_witness:
  "field sample_no_old ''password'' = JString ''abcdef''
   \<and> errors_at ''old_password'' (Profile_schema sample_rEmail sample_no_old) =
       [Message (''Obrigat'' @ [CHR 0xF3] @ ''rio ao informar a nova senha'')]
   \<and> field sample_profile ''password'' = JString ''''
   \<and> errors_at ''old_password'' (Profile_schema sample_rEmail sample_profile) = []"
proof -
  have p: "field sample_no_old ''password'' = JString ''abcdef''"
    and o: "field sample_no_old ''old_password'' = JString ''''"
    by (simp_all add: field_def sample_no_old_def)
  have p': "field sample_profile ''password'' = JString ''''"
    and o': "field sample_profile ''old_password'' = JString ''old''"
    by (simp_all add: field_def sample_profile_def)
  show ?thesis
    using p p' Profile_old_password_required_iff [OF p, of sample_rEmail]
      Profile_old_password_required_iff [OF p', of sample_rEmail]
    by (simp add: o o' missing_def)
qed

text \<open>
  C9. The validation of the profile throws a \<open>TypeError\<close>, in place of resolving or
  rejecting with a validation error, exactly when the field \<open>password\<close> is \<open>undefined\<close>
  or \<open>null\<close>; for a string it always produces a validation result.
\<close>

theorem Profile_schema_TypeError_iff:
  "(Profile_schema rEmail d = Inl TypeError) =
     (field d ''password'' = JUndefined \<or> field d ''password'' = JNull)"
  by (cases "field d ''password''") (simp_all add: Profile_schema_def settle_def)

text \<open>
  C10. For every profile submission that passes validation, the handler issues the one
  request \<open>PUT /profile\<close> whose body has \<open>name\<close> and \<open>email\<close>, followed by
  \<open>old_password\<close>, \<open>password\<close> and \<open>password_confirmation\<close> exactly when
  \<open>old_password\<close> is a non-empty string, each key with the value submitted for it. The
  new password plays no part in the decision: with an empty \<open>password\<close> the confirmation
  that passed validation is empty too, and both are sent as they are.
\<close>

theorem Profile_request_body:
  "Profile_schema rEmail d = Inr v \<Longrightarrow>
   requests (Profile_handleSubmit rEmail d resp) = [(PUT, ''/profile'', Json (formData d))]
   \<and> map fst (formData d) =
        [''name'', ''email''] @
        (if (\<exists>s. s \<noteq> [] \<and> field d ''old_password'' = JString s)
         then [''old_password'', ''password'', ''password_confirmation''] else [])
   \<and> (\<forall>k \<in> set (map fst (formData d)). map_of (formData d) k = Some (field d k))
   \<and> (field d ''password'' = JString [] \<and> field d ''password_confirmation'' = JString c \<longrightarrow> c = [])"
  apply (cases resp; cases "field d ''old_password''")
     apply (auto simp add: Profile_handleSubmit_def formData_def catch_submit_def)
   apply (auto simp add: Profile_schema_def schema_defs Let_def split: if_splits)
  done

theorem Profile_request_body_witness:
  "Profile_schema sample_rEmail sample_profile = Inr sample_profile
   \<and> requests (Profile_handleSubmit sample_rEmail sample_profile (Fulfilled ())) =
       [(PUT, ''/profile'', Json (formData sample_profile))]
   \<and> formData sample_profile =
       [(''name'', JString ''Ana''), (''email'', JString ''a@b.com''), (''old_password'', JString ''old''),
        (''password'', JString ''''), (''password_confirmation'', JString '''')]"
  using Profile_request_body [OF sample_profile_accepted, of "Fulfilled ()"] sample_profile_accepted
  by (simp add: formData_def field_def sample_profile_def)

section \<open>Failures\<close>

text \<open>
  C7 fails on the avatar: when the request \<open>PATCH /users/avatar\<close> is rejected, the
  handler makes no further call, so there is neither a field error nor a notification.
\<close>

theorem avatar_failure_is_silent:
  "handleAvatarChange (Some [''avatar.png'']) (Rejected :: unit response) =
     [Request PATCH ''/users/avatar'' (FormData [(''avatar'', FileEntry ''avatar.png'')])]
   \<and> toasts (handleAvatarChange (Some [''avatar.png'']) (Rejected :: unit response)) = []
   \<and> field_errors (handleAvatarChange (Some [''avatar.png'']) (Rejected :: unit response)) = []"
  by (simp add: handleAvatarChange_def)

text \<open>
  The submit handlers of the sign-up and the profile page do what C7 says: a failed run
  ends either with the field errors and no toast, or with the one error toast and no
  field errors.
\<close>

lemma catch_submit_outcomes:
  "(toasts (catch_submit e :: 'r action list) = [] \<and>
      (\<exists>inner. e = ValidationError inner \<and>
         field_errors (catch_submit e :: 'r action list) = [getValidationErrors inner]))
   \<or> (toasts (catch_submit e :: 'r action list) = [error_toast] \<and>
      field_errors (catch_submit e :: 'r action list) = [] \<and> (\<forall>inner. e \<noteq> ValidationError inner))"
  by (cases e) (simp_all add: catch_submit_def)

section \<open>Missing required fields\<close>

lemma map_of_fold_update:
  "map_of (fold (\<lambda>(p, m) errs. AList.update p m errs) inner acc) = map_of acc ++ map_of (rev inner)"
  by (induction inner arbitrary: acc)
     (auto simp add: update_conv' map_add_def fun_eq_iff split: option.splits)

lemma map_of_getValidationErrors: "map_of (getValidationErrors inner) = map_of (rev inner)"
  by (simp add: getValidationErrors_def map_of_fold_update)

lemma map_of_rev_tagged:
  "map_of (rev (map (Pair p) ms)) k = (if k = p \<and> ms \<noteq> [] then Some (last ms) else None)"
  by (induction ms) (auto simp add: map_add_def split: option.splits)

lemmas rejected_simps =
  rejected_at_def missing_def catch_submit_def map_of_getValidationErrors schema_defs
  map_of_rev_tagged map_add_def Let_def

lemma SignUp_missing_name:
  "missing (field d ''name'') \<Longrightarrow>
   rejected_at ''name'' (Message (''Nome Obrigat'' @ [CHR 0xF3] @ ''rio''))
     (SignUp_handleSubmit rEmail d resp)"
  unfolding SignUp_handleSubmit_def SignUp_schema_def
  by (auto simp add: rejected_simps split: option.splits)

lemma SignUp_missing_email:
  "missing (field d ''email'') \<Longrightarrow>
   rejected_at ''email'' (Message (''Email Obrigat'' @ [CHR 0xF3] @ ''rio''))
     (SignUp_handleSubmit rEmail d resp)"
  unfolding SignUp_handleSubmit_def SignUp_schema_def
  by (auto simp add: rejected_simps split: option.splits)

lemma SignIn_missing_email:
  "missing (field d ''email'') \<Longrightarrow>
   rejected_at ''email'' (Message (''Email Obrigat'' @ [CHR 0xF3] @ ''rio''))
     (SignIn_handleSubmit rEmail d)"
  unfolding SignIn_handleSubmit_def SignIn_schema_def
  by (auto simp add: rejected_simps split: option.splits)

lemma SignIn_missing_password:
  "missing (field d ''password'') \<Longrightarrow>
   rejected_at ''password'' (Message (''Senha obrigat'' @ [CHR 0xF3] @ ''ria''))
     (SignIn_handleSubmit rEmail d)"
  unfolding SignIn_handleSubmit_def SignIn_schema_def
  by (auto simp add: rejected_simps split: option.splits)

lemma Profile_missing_name:
  "field d ''password'' = JString p \<Longrightarrow> missing (field d ''name'') \<Longrightarrow>
   rejected_at ''name'' (Message (''Nome Obrigat'' @ [CHR 0xF3] @ ''rio''))
     (Profile_handleSubmit rEmail d resp)"
  unfolding Profile_handleSubmit_def Profile_schema_def
  by (auto simp add: rejected_simps split: option.splits)

lemma Profile_missing_email:
  "field d ''password'' = JString p \<Longrightarrow> missing (field d ''email'') \<Longrightarrow>
   rejected_at ''email'' (Message (''Email Obrigat'' @ [CHR 0xF3] @ ''rio''))
     (Profile_handleSubmit rEmail d resp)"
  unfolding Profile_handleSubmit_def Profile_schema_def
  by (auto simp add: rejected_simps split: option.splits)

lemma Profile_missing_old_password:
  "field d ''password'' = JString p \<Longrightarrow> p \<noteq> [] \<Longrightarrow> missing (field d ''old_password'') \<Longrightarrow>
   rejected_at ''old_password'' (Message (''Obrigat'' @ [CHR 0xF3] @ ''rio ao informar a nova senha''))
     (Profile_handleSubmit rEmail d resp)"
  unfolding Profile_handleSubmit_def Profile_schema_def
  by (auto simp add: rejected_simps split: option.splits)

text \<open>
  C6. A submission that lacks a required field (the property is absent or the input
  empty) is rejected by the validation: the handler issues no request and shows no toast,
  and its last call gives the field its message. On the sign-up screen the required
  fields are \<open>name\<close> and \<open>email\<close>, on the sign-in screen \<open>email\<close> and \<open>password\<close>, on
  the profile screen \<open>name\<close>, \<open>email\<close> and, when a new password is supplied,
  \<open>old_password\<close> (there with the field \<open>password\<close> a string, as declared).
\<close>

theorem missing_required_field_rejected:
  "(missing (field d ''name'') \<longrightarrow>
      rejected_at ''name'' (Message (''Nome Obrigat'' @ [CHR 0xF3] @ ''rio''))
        (SignUp_handleSubmit rEmail d resp))
   \<and> (missing (field d ''email'') \<longrightarrow>
      rejected_at ''email'' (Message (''Email Obrigat'' @ [CHR 0xF3] @ ''rio''))
        (SignUp_handleSubmit rEmail d resp))
   \<and> (missing (field d ''email'') \<longrightarrow>
      rejected_at ''email'' (Message (''Email Obrigat'' @ [CHR 0xF3] @ ''rio''))
        (SignIn_handleSubmit rEmail d :: 'r action list))
   \<and> (missing (field d ''password'') \<longrightarrow>
      rejected_at ''password'' (Message (''Senha obrigat'' @ [CHR 0xF3] @ ''ria''))
        (SignIn_handleSubmit rEmail d :: 'r action list))
   \<and> (field d ''password'' = JString p \<and> missing (field d ''name'') \<longrightarrow>
      rejected_at ''name'' (Message (''Nome Obrigat'' @ [CHR 0xF3] @ ''rio''))
        (Profile_handleSubmit rEmail d resp))
   \<and> (field d ''password'' = JString p \<and> missing (field d ''email'') \<longrightarrow>
      rejected_at ''email'' (Message (''Email Obrigat'' @ [CHR 0xF3] @ ''rio''))
        (Profile_handleSubmit rEmail d resp))
   \<and> (field d ''password'' = JString p \<and> p \<noteq> [] \<and> missing (field d ''old_password'') \<longrightarrow>
      rejected_at ''old_password''
        (Message (''Obrigat'' @ [CHR 0xF3] @ ''rio ao informar a nova senha''))
        (Profile_handleSubmit rEmail d resp))"
  using SignUp_missing_name [of d rEmail resp] SignUp_missing_email [of d rEmail resp]
    SignIn_missing_email [of d rEmail, where ?'a = 'r]
    SignIn_missing_password [of d rEmail, where ?'a = 'r]
    Profile_missing_name [of d p rEmail resp] Profile_missing_email [of d p rEmail resp]
    Profile_missing_old_password [of d p rEmail resp]
  by blast

theorem missing_required_field_rejected_witness:
  "missing (field sample_no_name ''name'')
   \<and> SignUp_handleSubmit sample_rEmail sample_no_name (Fulfilled ()) =
       [Validate, SetErrors [(''name'', Message (''Nome Obrigat'' @ [CHR 0xF3] @ ''rio''))]]
   \<and> rejected_at ''name'' (Message (''Nome Obrigat'' @ [CHR 0xF3] @ ''rio''))
       (SignUp_handleSubmit sample_rEmail sample_no_name (Fulfilled ()))
   \<and> missing (field sample_only_password ''name'') \<and> missing (field sample_only_password ''email'')
   \<and> missing (field sample_only_password ''old_password'')
   \<and> field sample_only_password ''password'' = JString ''abcdef'' \<and> ''abcdef'' \<noteq> []
   \<and> rejected_at ''email'' (Message (''Email Obrigat'' @ [CHR 0xF3] @ ''rio''))
       (SignUp_handleSubmit sample_rEmail sample_only_password (Fulfilled ()))
   \<and> rejected_at ''email'' (Message (''Email Obrigat'' @ [CHR 0xF3] @ ''rio''))
       (SignIn_handleSubmit sample_rEmail sample_only_password :: unit action list)
   \<and> rejected_at ''name'' (Message (''Nome Obrigat'' @ [CHR 0xF3] @ ''rio''))
       (Profile_handleSubmit sample_rEmail sample_only_password (Fulfilled ()))
   \<and> rejected_at ''email'' (Message (''Email Obrigat'' @ [CHR 0xF3] @ ''rio''))
       (Profile_handleSubmit sample_rEmail sample_only_password (Fulfilled ()))
   \<and> rejected_at ''old_password''
       (Message (''Obrigat'' @ [CHR 0xF3] @ ''rio ao informar a nova senha''))
       (Profile_handleSubmit sample_rEmail sample_only_password (Fulfilled ()))
   \<and> missing (field [] ''password'')
   \<and> rejected_at ''password'' (Message (''Senha obrigat'' @ [CHR 0xF3] @ ''ria''))
       (SignIn_handleSubmit sample_rEmail [] :: unit action list)"
proof -
  have m1: "missing (field sample_no_name ''name'')"
    by (simp add: missing_def field_def sample_no_name_def)
  have m2: "missing (field sample_only_password ''name'')"
      "missing (field sample_only_password ''email'')"
      "missing (field sample_only_password ''old_password'')"
      "field sample_only_password ''password'' = JString ''abcdef''"
    by (simp_all add: missing_def field_def sample_only_password_def)
  have m3: "missing (field [] ''password'')"
    by (simp add: missing_def field_def)
  have run: "SignUp_handleSubmit sample_rEmail sample_no_name (Fulfilled ()) =
       [Validate, SetErrors [(''name'', Message (''Nome Obrigat'' @ [CHR 0xF3] @ ''rio''))]]"
    by (simp add: SignUp_handleSubmit_def SignUp_schema_def schema_defs catch_submit_def
        getValidationErrors_def field_def sample_rEmail_def sample_no_name_def)
  have ne: "''abcdef'' \<noteq> []" by simp
  note at_no_name =
    missing_required_field_rejected [of sample_no_name sample_rEmail "Fulfilled ()" "''abcdef''"]
  note at_only_password =
    missing_required_field_rejected [of sample_only_password sample_rEmail "Fulfilled ()" "''abcdef''"]
  note at_empty =
    missing_required_field_rejected [of "[]" sample_rEmail "Fulfilled ()" "''abcdef''"]
  from at_no_name m1
  have r1: "rejected_at ''name'' (Message (''Nome Obrigat'' @ [CHR 0xF3] @ ''rio''))
       (SignUp_handleSubmit sample_rEmail sample_no_name (Fulfilled ()))"
    by blast
  from at_only_password m2 ne
  have r2: "rejected_at ''email'' (Message (''Email Obrigat'' @ [CHR 0xF3] @ ''rio''))
       (SignUp_handleSubmit sample_rEmail sample_only_password (Fulfilled ()))"
    and r3: "rejected_at ''email'' (Message (''Email Obrigat'' @ [CHR 0xF3] @ ''rio''))
       (SignIn_handleSubmit sample_rEmail sample_only_password :: unit action list)"
    and r4: "rejected_at ''name'' (Message (''Nome Obrigat'' @ [CHR 0xF3] @ ''rio''))
       (Profile_handleSubmit sample_rEmail sample_only_password (Fulfilled ()))"
    and r5: "rejected_at ''email'' (Message (''Email Obrigat'' @ [CHR 0xF3] @ ''rio''))
       (Profile_handleSubmit sample_rEmail sample_only_password (Fulfilled ()))"
    and r6: "rejected_at ''old_password''
       (Message (''Obrigat'' @ [CHR 0xF3] @ ''rio ao informar a nova senha''))
       (Profile_handleSubmit sample_rEmail sample_only_password (Fulfilled ()))"
    by blast+
  from at_empty m3
  have r7: "rejected_at ''password'' (Message (''Senha obrigat'' @ [CHR 0xF3] @ ''ria''))
       (SignIn_handleSubmit sample_rEmail [] :: unit action list)"
    by blast
  from m1 run r1 m2 ne r2 r3 r4 r5 r6 m3 r7 show ?thesis
    by (intro conjI)
qed

section \<open>The countdown of a toast\<close>

lemma fold_Toast_cleanup:
  "fold (\<lambda>c. Toast_cleanup (snd c)) cs w =
     w\<lparr>timers := filter (\<lambda>tm. handle tm \<notin> snd ` set cs) (timers w)\<rparr>"
proof (induction cs arbitrary: w)
  case Nil
  then show ?case by simp
next
  case (Cons c cs)
  have "fold (\<lambda>c. Toast_cleanup (snd c)) (c # cs) w =
        fold (\<lambda>c. Toast_cleanup (snd c)) cs (Toast_cleanup (snd c) w)"
    by simp
  also have "\<dots> = (Toast_cleanup (snd c) w)
      \<lparr>timers := filter (\<lambda>tm. handle tm \<notin> snd ` set cs) (timers (Toast_cleanup (snd c) w))\<rparr>"
    by (rule Cons.IH)
  also have "\<dots> = w\<lparr>timers := filter (\<lambda>tm. handle tm \<notin> snd ` set (c # cs)) (timers w)\<rparr>"
    by (auto simp add: Toast_cleanup_def clearTimeout_def intro: filter_cong)
  finally show ?case .
qed

lemma consistent_target_handle:
  assumes "consistent w" "tm \<in> set (timers w)" "(j, handle tm) \<in> set (mounted w)"
  shows "target tm = j"
proof -
  from assms have m: "(target tm, handle tm) \<in> set (mounted w)"
    and d: "distinct (map snd (mounted w))"
    by (auto simp add: consistent_def)
  from d m assms(3) show ?thesis
    by (metis distinct_map inj_on_def snd_conv fst_conv)
qed

lemma consistent_same_target:
  assumes "consistent w" "x \<in> set (timers w)" "y \<in> set (timers w)" "target x = target y"
  shows "x = y"
proof -
  from assms have mx: "(target x, handle x) \<in> set (mounted w)"
    and my: "(target x, handle y) \<in> set (mounted w)"
    and df: "distinct (map fst (mounted w))"
    and dh: "distinct (map handle (timers w))"
    by (auto simp add: consistent_def)
  from df mx my have "handle x = handle y"
    by (metis distinct_map inj_on_def snd_conv fst_conv)
  with dh assms(2,3) show ?thesis
    by (metis distinct_map inj_on_def)
qed

lemma consistent_timer_mounted:
  "consistent w \<Longrightarrow> tm \<in> set (timers w) \<Longrightarrow> (target tm, handle tm) \<in> set (mounted w)"
  by (simp add: consistent_def)

lemma consistent_mounted_shown:
  "consistent w \<Longrightarrow> c \<in> set (mounted w) \<Longrightarrow> fst c \<in> toast_id ` set (messages w)"
  by (auto simp add: consistent_def ids_def)

lemma shown_without:
  "a \<in> toast_id ` set (ms :: ToastMessage list) \<Longrightarrow>
   (a \<in> toast_id ` {x \<in> set ms. toast_id x \<noteq> j}) = (a \<noteq> j)"
  by auto

lemma dismiss_drop_toast:
  assumes "consistent w"
  shows "dismiss j w = drop_toast j w"
proof -
  let ?shown = "toast_id ` {x \<in> set (messages w). toast_id x \<noteq> j}"
  have shown: "(fst c \<in> ?shown) = (fst c \<noteq> j)" if "c \<in> set (mounted w)" for c
    using consistent_mounted_shown [OF assms that] by (rule shown_without)
  have kept: "filter (\<lambda>c. fst c \<in> ?shown) (mounted w) = filter (\<lambda>c. fst c \<noteq> j) (mounted w)"
    by (rule filter_cong [OF refl]) (rule shown)
  have tms: "filter (\<lambda>tm. handle tm \<notin> snd ` {x \<in> set (mounted w). fst x \<notin> ?shown}) (timers w) =
             filter (\<lambda>tm. target tm \<noteq> j) (timers w)"
  proof (rule filter_cong [OF refl])
    fix tm assume tm: "tm \<in> set (timers w)"
    have "(handle tm \<in> snd ` {x \<in> set (mounted w). fst x \<notin> ?shown}) = (target tm = j)"
    proof
      assume "handle tm \<in> snd ` {x \<in> set (mounted w). fst x \<notin> ?shown}"
      then obtain c where c: "c \<in> set (mounted w)" "fst c \<notin> ?shown" "snd c = handle tm"
        by auto
      from c(1,2) have "fst c = j" by (simp only: shown [OF c(1)] simp_thms)
      with c(1,3) have "(j, handle tm) \<in> set (mounted w)"
        by (metis prod.collapse)
      then show "target tm = j"
        by (rule consistent_target_handle [OF assms tm])
    next
      assume t: "target tm = j"
      have m: "(j, handle tm) \<in> set (mounted w)"
        using consistent_timer_mounted [OF assms tm] t by simp
      have "fst (j, handle tm) \<notin> ?shown"
        by auto
      with m have "(j, handle tm) \<in> {x \<in> set (mounted w). fst x \<notin> ?shown}"
        by (rule_tac CollectI) (rule conjI)
      then show "handle tm \<in> snd ` {x \<in> set (mounted w). fst x \<notin> ?shown}"
        by (rule image_eqI [rotated]) simp
    qed
    then show "(handle tm \<notin> snd ` {x \<in> set (mounted w). fst x \<notin> ?shown}) = (target tm \<noteq> j)"
      by (rule arg_cong [where f = Not])
  qed
  have "dismiss j w =
          w\<lparr>messages := filter (\<lambda>m. toast_id m \<noteq> j) (messages w),
            calls := calls w @ [j],
            timers := filter (\<lambda>tm. handle tm \<notin> snd ` {x \<in> set (mounted w). fst x \<notin> ?shown}) (timers w),
            mounted := filter (\<lambda>c. fst c \<in> ?shown) (mounted w)\<rparr>"
    unfolding dismiss_def unmount_removed_def Let_def fold_Toast_cleanup
    by (simp add: removeToast_def)
  then show ?thesis
    by (simp only: kept tms drop_toast_def)
qed

lemma consistent_drop_toast:
  assumes "consistent w"
  shows "consistent (drop_toast j w)"
proof -
  have "map fst (filter (\<lambda>c. fst c \<noteq> j) (mounted w)) = filter (\<lambda>a. a \<noteq> j) (map fst (mounted w))"
    by (simp add: filter_map comp_def)
  moreover have "map toast_id (filter (\<lambda>m. toast_id m \<noteq> j) (messages w)) =
      filter (\<lambda>a. a \<noteq> j) (map toast_id (messages w))"
    by (simp add: filter_map comp_def)
  ultimately show ?thesis
    using assms
    by (auto simp add: consistent_def drop_toast_def ids_def distinct_map_filter)
qed

lemma consistent_drop_timers:
  "consistent w \<Longrightarrow> consistent (w\<lparr>timers := filter P (timers w)\<rparr>)"
  by (auto simp add: consistent_def ids_def distinct_map_filter)

lemma consistent_now [simp]: "consistent (w\<lparr>now := n\<rparr>) = consistent w"
  by (simp add: consistent_def ids_def)

lemma consistent_same_handle:
  assumes "consistent w" "x \<in> set (timers w)" "y \<in> set (timers w)" "handle x = handle y"
  shows "x = y"
proof -
  from assms(1) have "distinct (map handle (timers w))"
    by (simp add: consistent_def)
  with assms(2-4) show ?thesis
    by (metis distinct_map inj_on_def)
qed

lemma fire_drop_toast:
  assumes "consistent w" "tm \<in> set (timers w)"
  shows "fire tm w = drop_toast (target tm) w"
proof -
  let ?w = "w\<lparr>timers := filter (\<lambda>x. handle x \<noteq> handle tm) (timers w)\<rparr>"
  have "filter (\<lambda>x. target x \<noteq> target tm) (filter (\<lambda>x. handle x \<noteq> handle tm) (timers w)) =
        filter (\<lambda>x. target x \<noteq> target tm) (timers w)"
    unfolding filter_filter
  proof (rule filter_cong [OF refl])
    fix x assume "x \<in> set (timers w)"
    from consistent_same_handle [OF assms(1) this assms(2)]
    show "(handle x \<noteq> handle tm \<and> target x \<noteq> target tm) = (target x \<noteq> target tm)"
      by auto
  qed
  then have "drop_toast (target tm) ?w = drop_toast (target tm) w"
    by (simp add: drop_toast_def)
  moreover have "fire tm w = dismiss (target tm) ?w"
    using assms(2) by (simp add: fire_def)
  moreover have "dismiss (target tm) ?w = drop_toast (target tm) ?w"
    by (rule dismiss_drop_toast) (rule consistent_drop_timers [OF assms(1)])
  ultimately show ?thesis by simp
qed

lemma fold_fire:
  "consistent w \<Longrightarrow> set L \<subseteq> set (timers w) \<Longrightarrow> distinct L \<Longrightarrow>
   fold fire L w = fold drop_toast (map target L) w"
proof (induction L arbitrary: w)
  case Nil
  then show ?case by simp
next
  case (Cons tm L)
  from Cons.prems have tm: "tm \<in> set (timers w)" by simp
  have step: "fire tm w = drop_toast (target tm) w"
    by (rule fire_drop_toast [OF Cons.prems(1) tm])
  have cons: "consistent (drop_toast (target tm) w)"
    by (rule consistent_drop_toast [OF Cons.prems(1)])
  have sub: "set L \<subseteq> set (timers (drop_toast (target tm) w))"
  proof
    fix x assume x: "x \<in> set L"
    with Cons.prems have xt: "x \<in> set (timers w)" and ne: "x \<noteq> tm" by auto
    from consistent_same_target [OF Cons.prems(1) xt tm] ne have "target x \<noteq> target tm"
      by blast
    with xt show "x \<in> set (timers (drop_toast (target tm) w))"
      by (simp add: drop_toast_def)
  qed
  from Cons.prems have "distinct L" by simp
  from Cons.IH [OF cons sub this] step show ?case by simp
qed

lemma fold_drop_toast_fields:
  "messages (fold drop_toast js w) = filter (\<lambda>m. toast_id m \<notin> set js) (messages w)"
  "calls (fold drop_toast js w) = calls w @ js"
  "timers (fold drop_toast js w) = filter (\<lambda>tm. target tm \<notin> set js) (timers w)"
  "mounted (fold drop_toast js w) = filter (\<lambda>c. fst c \<notin> set js) (mounted w)"
  "now (fold drop_toast js w) = now w"
  "next_handle (fold drop_toast js w) = next_handle w"
  by (induction js arbitrary: w) (auto simp add: drop_toast_def intro: filter_cong)

lemma consistent_fold_drop_toast:
  "consistent w \<Longrightarrow> consistent (fold drop_toast js w)"
  by (induction js arbitrary: w) (simp_all add: consistent_drop_toast)

lemma elapse_fold_drop:
  assumes "consistent w"
  shows "elapse n w =
     fold drop_toast (map target (filter (\<lambda>tm. due tm \<le> now w + n) (timers w))) (w\<lparr>now := now w + n\<rparr>)"
proof -
  have "distinct (map handle (timers w))"
    using assms by (simp add: consistent_def)
  then have "distinct (timers w)"
    by (simp add: distinct_map)
  then have "distinct (filter (\<lambda>tm. due tm \<le> now w + n) (timers w))"
    by simp
  moreover have "consistent (w\<lparr>now := now w + n\<rparr>)"
    using assms by simp
  moreover have "set (filter (\<lambda>tm. due tm \<le> now w + n) (timers w)) \<subseteq> set (timers (w\<lparr>now := now w + n\<rparr>))"
    by auto
  ultimately have "fold fire (filter (\<lambda>tm. due tm \<le> now w + n) (timers w)) (w\<lparr>now := now w + n\<rparr>) =
      fold drop_toast (map target (filter (\<lambda>tm. due tm \<le> now w + n) (timers w))) (w\<lparr>now := now w + n\<rparr>)"
    by (intro fold_fire)
  then show ?thesis
    by (simp add: elapse_def Let_def)
qed

lemma unmount_fields:
  assumes "consistent w"
  shows "unmount i w =
     w\<lparr>timers := filter (\<lambda>tm. target tm \<noteq> i) (timers w),
       mounted := filter (\<lambda>c. fst c \<noteq> i) (mounted w)\<rparr>"
proof -
  have "filter (\<lambda>tm. handle tm \<notin> snd ` {c \<in> set (mounted w). fst c = i}) (timers w) =
        filter (\<lambda>tm. target tm \<noteq> i) (timers w)"
  proof (rule filter_cong [OF refl])
    fix tm assume tm: "tm \<in> set (timers w)"
    have "(handle tm \<in> snd ` {c \<in> set (mounted w). fst c = i}) = (target tm = i)"
    proof
      assume "handle tm \<in> snd ` {c \<in> set (mounted w). fst c = i}"
      then have "(i, handle tm) \<in> set (mounted w)" by auto
      then show "target tm = i"
        by (rule consistent_target_handle [OF assms tm])
    next
      assume t: "target tm = i"
      have "(i, handle tm) \<in> set (mounted w)"
        using consistent_timer_mounted [OF assms tm] t by simp
      then show "handle tm \<in> snd ` {c \<in> set (mounted w). fst c = i}"
        by force
    qed
    then show "(handle tm \<notin> snd ` {c \<in> set (mounted w). fst c = i}) = (target tm \<noteq> i)"
      by simp
  qed
  then show ?thesis
    by (simp add: unmount_def fold_Toast_cleanup)
qed

lemma consistent_unmount:
  assumes "consistent w"
  shows "consistent (unmount i w)"
proof -
  have "map fst (filter (\<lambda>c. fst c \<noteq> i) (mounted w)) = filter (\<lambda>a. a \<noteq> i) (map fst (mounted w))"
    by (simp add: filter_map comp_def)
  then show ?thesis
    using assms
    by (auto simp add: unmount_fields [OF assms] consistent_def ids_def distinct_map_filter)
qed

lemma Add_fields:
  "Toast_effect t (addToast t w) =
     w\<lparr>messages := messages w @ [t],
       timers := timers w @ [\<lparr>handle = next_handle w, due = now w + 3000, target = toast_id t\<rparr>],
       next_handle := Suc (next_handle w),
       mounted := mounted w @ [(toast_id t, next_handle w)]\<rparr>"
  by (simp add: Toast_effect_def setTimeout_def addToast_def)

lemma consistent_Add:
  assumes "consistent w" "toast_id t \<notin> set (ids w)"
  shows "consistent (step (Add t) w)"
proof -
  have h: "\<And>c. c \<in> set (mounted w) \<Longrightarrow> snd c < next_handle w"
    and m: "\<And>tm. tm \<in> set (timers w) \<Longrightarrow> (target tm, handle tm) \<in> set (mounted w)"
    and s: "set (map fst (mounted w)) \<subseteq> set (ids w)"
    using assms(1) by (auto simp add: consistent_def)
  have fresh_snd: "next_handle w \<notin> snd ` set (mounted w)"
    using h by force
  have fresh_handle: "next_handle w \<notin> handle ` set (timers w)"
  proof
    assume "next_handle w \<in> handle ` set (timers w)"
    then obtain tm where "tm \<in> set (timers w)" "handle tm = next_handle w" by auto
    with m [of tm] h [of "(target tm, handle tm)"] show False by simp
  qed
  have fresh_fst: "toast_id t \<notin> fst ` set (mounted w)"
    using s assms(2) by auto
  show ?thesis
    unfolding step.simps Add_fields
    using assms fresh_snd fresh_handle fresh_fst h m s
    by (auto simp add: consistent_def ids_def less_Suc_eq)
qed

lemma adds_fresh_Cons:
  "adds_fresh w (e # es) = (adds_fresh w [e] \<and> adds_fresh (step e w) es)"
  by (cases e) simp_all

lemma never_adds_Cons: "never_adds i (e # es) = (never_adds i [e] \<and> never_adds i es)"
  by (cases e) simp_all

lemma leaves_alone_Cons: "leaves_alone i (e # es) = (leaves_alone i [e] \<and> leaves_alone i es)"
  by (cases e) simp_all

lemma leaves_alone_never_adds: "leaves_alone i es \<Longrightarrow> never_adds i es"
  by (induction i es rule: leaves_alone.induct) simp_all

lemma consistent_initial: "consistent initial"
  by (simp add: consistent_def initial_def ids_def)

lemma consistent_step:
  assumes "consistent w" "adds_fresh w [e]"
  shows "consistent (step e w)"
proof (cases e)
  case (Add t)
  with assms show ?thesis
    using consistent_Add [of w t] by (simp add: ids_def)
next
  case (Click j)
  with assms show ?thesis
    by (simp add: dismiss_drop_toast consistent_drop_toast)
next
  case (Unmount j)
  with assms show ?thesis
    by (simp add: consistent_unmount)
next
  case (Elapse n)
  with assms show ?thesis
    by (simp add: elapse_fold_drop consistent_fold_drop_toast)
qed

lemma consistent_run:
  "consistent w \<Longrightarrow> adds_fresh w es \<Longrightarrow> consistent (run es w)"
proof (induction es arbitrary: w)
  case Nil
  then show ?case by simp
next
  case (Cons e es)
  from Cons.prems(2) have "adds_fresh w [e]" "adds_fresh (step e w) es"
    by (simp_all only: adds_fresh_Cons [of w e es])
  with Cons.IH [of "step e w"] consistent_step [OF Cons.prems(1)] show ?case
    by simp
qed

lemma now_step: "consistent w \<Longrightarrow> now w \<le> now (step e w)"
  by (cases e)
     (simp_all add: Add_fields dismiss_drop_toast drop_toast_def unmount_fields
        elapse_fold_drop fold_drop_toast_fields)

lemma consistent_not_shown:
  "consistent w \<Longrightarrow> i \<notin> set (ids w) \<Longrightarrow> i \<notin> fst ` set (mounted w)"
  by (auto simp add: consistent_def)

lemma consistent_not_mounted:
  "consistent w \<Longrightarrow> i \<notin> fst ` set (mounted w) \<Longrightarrow> tm \<in> set (timers w) \<Longrightarrow> target tm \<noteq> i"
  using consistent_timer_mounted [of w tm] by force

lemma not_mounted_step:
  assumes "consistent w" "i \<notin> fst ` set (mounted w)" "never_adds i [e]"
  shows "i \<notin> fst ` set (mounted (step e w)) \<and>
         count_list (calls (step e w)) i = count_list (calls w) i"
proof (cases e)
  case (Add t)
  with assms show ?thesis
    by (simp add: Add_fields)
next
  case (Click j)
  with assms show ?thesis
    by (auto simp add: dismiss_drop_toast drop_toast_def)
next
  case (Unmount j)
  with assms show ?thesis
    by (auto simp add: unmount_fields)
next
  case (Elapse n)
  have "i \<notin> target ` set (filter (\<lambda>tm. due tm \<le> now w + n) (timers w))"
    using consistent_not_mounted [OF assms(1,2)] by auto
  then have "count_list (map target (filter (\<lambda>tm. due tm \<le> now w + n) (timers w))) i = 0"
    by (simp add: count_list_0_iff)
  with Elapse assms show ?thesis
    by (auto simp add: elapse_fold_drop fold_drop_toast_fields)
qed

lemma not_shown_step:
  assumes "consistent w" "i \<notin> set (ids w)" "never_adds i [e]"
  shows "i \<notin> set (ids (step e w))"
proof (cases e)
  case (Add t)
  with assms show ?thesis
    by (simp add: Add_fields ids_def)
next
  case (Click j)
  with assms show ?thesis
    by (auto simp add: dismiss_drop_toast drop_toast_def ids_def)
next
  case (Unmount j)
  with assms show ?thesis
    by (auto simp add: unmount_fields ids_def)
next
  case (Elapse n)
  with assms show ?thesis
    by (auto simp add: elapse_fold_drop fold_drop_toast_fields ids_def)
qed

lemma not_mounted_run:
  "consistent w \<Longrightarrow> adds_fresh w es \<Longrightarrow> never_adds i es \<Longrightarrow> i \<notin> fst ` set (mounted w) \<Longrightarrow>
   i \<notin> fst ` set (mounted (run es w)) \<and> count_list (calls (run es w)) i = count_list (calls w) i"
proof (induction es arbitrary: w)
  case Nil
  then show ?case by simp
next
  case (Cons e es)
  from Cons.prems(2) have f: "adds_fresh w [e]" "adds_fresh (step e w) es"
    by (simp_all only: adds_fresh_Cons [of w e es])
  from Cons.prems(3) have n: "never_adds i [e]" "never_adds i es"
    by (simp_all only: never_adds_Cons [of i e es])
  note s = not_mounted_step [OF Cons.prems(1,4) n(1)]
  from Cons.IH [OF consistent_step [OF Cons.prems(1) f(1)] f(2) n(2)] s show ?case
    by simp
qed

lemma not_shown_run:
  "consistent w \<Longrightarrow> adds_fresh w es \<Longrightarrow> never_adds i es \<Longrightarrow> i \<notin> set (ids w) \<Longrightarrow>
   i \<notin> set (ids (run es w))"
proof (induction es arbitrary: w)
  case Nil
  then show ?case by simp
next
  case (Cons e es)
  from Cons.prems(2) have f: "adds_fresh w [e]" "adds_fresh (step e w) es"
    by (simp_all only: adds_fresh_Cons [of w e es])
  from Cons.prems(3) have n: "never_adds i [e]" "never_adds i es"
    by (simp_all only: never_adds_Cons [of i e es])
  from Cons.IH [OF consistent_step [OF Cons.prems(1) f(1)] f(2) n(2)]
    not_shown_step [OF Cons.prems(1,4) n(1)]
  show ?case by simp
qed

lemma count_list_distinct: "distinct xs \<Longrightarrow> x \<in> set xs \<Longrightarrow> count_list xs x = 1"
  by (induction xs) (auto simp add: count_list_0_iff)

lemma consistent_distinct_targets:
  assumes "consistent w"
  shows "distinct (map target (timers w))"
proof -
  from assms have "distinct (map handle (timers w))"
    by (simp add: consistent_def)
  then have "distinct (timers w)"
    by (simp add: distinct_map)
  moreover have "inj_on target (set (timers w))"
    by (rule inj_onI) (rule consistent_same_target [OF assms])
  ultimately show ?thesis
    by (simp add: distinct_map)
qed

lemma tracked_elapse:
  assumes tg: "target tm = toast_id t"
    and c: "consistent w"
    and live: "now w < due tm" "t \<in> set (messages w)" "tm \<in> set (timers w)"
  shows "tracked t tm (count_list (calls w) (toast_id t)) (elapse n w)"
proof -
  let ?L = "filter (\<lambda>x. due x \<le> now w + n) (timers w)"
  let ?w = "fold drop_toast (map target ?L) (w\<lparr>now := now w + n\<rparr>)"
  have e: "elapse n w = ?w"
    by (rule elapse_fold_drop [OF c])
  have cw: "consistent ?w"
    using c by (simp add: consistent_fold_drop_toast)
  have nw: "now ?w = now w + n"
    by (simp add: fold_drop_toast_fields)
  have target_iff: "(toast_id t \<in> target ` set ?L) = (due tm \<le> now w + n)"
  proof
    assume "toast_id t \<in> target ` set ?L"
    then obtain x where x: "x \<in> set (timers w)" "due x \<le> now w + n" "target x = toast_id t"
      by auto
    from consistent_same_target [OF c x(1) live(3)] x(3) tg have "x = tm" by simp
    with x(2) show "due tm \<le> now w + n" by simp
  next
    assume "due tm \<le> now w + n"
    with live(3) have "tm \<in> set ?L" by simp
    then have "target tm \<in> target ` set ?L" by (rule imageI)
    with tg show "toast_id t \<in> target ` set ?L" by simp
  qed
  show ?thesis
  proof (cases "due tm \<le> now w + n")
    case True
    with target_iff have in_L: "toast_id t \<in> set (map target ?L)" by simp
    have "distinct (map target ?L)"
      using consistent_distinct_targets [OF c] by (simp add: distinct_map_filter)
    from count_list_distinct [OF this in_L]
    have "count_list (calls ?w) (toast_id t) = Suc (count_list (calls w) (toast_id t))"
      by (simp add: fold_drop_toast_fields)
    moreover have "toast_id t \<notin> set (ids ?w)"
      using in_L by (auto simp add: ids_def fold_drop_toast_fields)
    ultimately show ?thesis
      using True cw nw by (simp add: tracked_def e)
  next
    case False
    with target_iff have out: "toast_id t \<notin> target ` set ?L" by simp
    then have "count_list (map target ?L) (toast_id t) = 0"
      by (simp add: count_list_0_iff)
    then have "count_list (calls ?w) (toast_id t) = count_list (calls w) (toast_id t)"
      by (simp add: fold_drop_toast_fields)
    moreover have "t \<in> set (messages ?w)"
      using out live(2) by (simp add: fold_drop_toast_fields)
    moreover have "tm \<in> set (timers ?w)"
      using out live(3) tg by (simp add: fold_drop_toast_fields)
    ultimately show ?thesis
      using False cw nw by (simp add: tracked_def e)
  qed
qed

lemma tracked_step:
  assumes tg: "target tm = toast_id t"
    and tr: "tracked t tm c w"
    and la: "leaves_alone (toast_id t) [e]"
    and fr: "adds_fresh w [e]"
  shows "tracked t tm c (step e w)"
proof (cases "now w < due tm")
  case True
  with tr have c: "consistent w" and m: "t \<in> set (messages w)" and p: "tm \<in> set (timers w)"
    and k: "count_list (calls w) (toast_id t) = c"
    by (simp_all add: tracked_def)
  note cs = consistent_step [OF c fr]
  show ?thesis
  proof (cases e)
    case (Add t')
    with True cs m p k show ?thesis
      by (simp add: tracked_def Add_fields)
  next
    case (Click j)
    with True cs m p k la tg c show ?thesis
      by (simp add: tracked_def dismiss_drop_toast drop_toast_def)
  next
    case (Unmount j)
    with True cs m p k la tg c show ?thesis
      by (simp add: tracked_def unmount_fields)
  next
    case (Elapse n)
    with tracked_elapse [OF tg c True m p, of n] k show ?thesis
      by simp
  qed
next
  case False
  with tr have c: "consistent w" and g: "toast_id t \<notin> set (ids w)"
    and k: "count_list (calls w) (toast_id t) = Suc c"
    by (simp_all add: tracked_def)
  from la have na: "never_adds (toast_id t) [e]"
    by (rule leaves_alone_never_adds)
  from now_step [OF c, of e] False have "\<not> now (step e w) < due tm"
    by simp
  moreover note consistent_step [OF c fr] not_shown_step [OF c g na]
    not_mounted_step [OF c consistent_not_shown [OF c g] na]
  ultimately show ?thesis
    using k by (simp add: tracked_def)
qed

lemma tracked_run:
  "target tm = toast_id t \<Longrightarrow> tracked t tm c w \<Longrightarrow> leaves_alone (toast_id t) es \<Longrightarrow>
   adds_fresh w es \<Longrightarrow> tracked t tm c (run es w)"
proof (induction es arbitrary: w)
  case Nil
  then show ?case by simp
next
  case (Cons e es)
  from Cons.prems(4) have f: "adds_fresh w [e]" "adds_fresh (step e w) es"
    by (simp_all only: adds_fresh_Cons [of w e es])
  from Cons.prems(3) have l: "leaves_alone (toast_id t) [e]" "leaves_alone (toast_id t) es"
    by (simp_all only: leaves_alone_Cons [of "toast_id t" e es])
  from Cons.IH [OF Cons.prems(1) tracked_step [OF Cons.prems(1,2) l(1) f(1)] l(2) f(2)]
  show ?case by simp
qed

lemma tracked_Add:
  assumes "consistent w" "toast_id t \<notin> set (ids w)"
  shows "tracked t \<lparr>handle = next_handle w, due = now w + 3000, target = toast_id t\<rparr>
           (count_list (calls w) (toast_id t)) (step (Add t) w)"
  using consistent_Add [OF assms]
  by (simp add: tracked_def Add_fields)

lemma tracked_Click:
  assumes tg: "target tm = toast_id t" and tr: "tracked t tm c w"
  shows "consistent (step (Click (toast_id t)) w) \<and>
         toast_id t \<notin> set (ids (step (Click (toast_id t)) w)) \<and>
         count_list (calls (step (Click (toast_id t)) w)) (toast_id t) = Suc c"
proof (cases "now w < due tm")
  case True
  with tr have c: "consistent w" and p: "tm \<in> set (timers w)"
    and k: "count_list (calls w) (toast_id t) = c"
    by (simp_all add: tracked_def)
  from consistent_timer_mounted [OF c p] tg have "toast_id t \<in> fst ` set (mounted w)"
    by force
  then have "step (Click (toast_id t)) w = drop_toast (toast_id t) w"
    by (simp add: dismiss_drop_toast [OF c])
  moreover have "toast_id t \<notin> set (ids (drop_toast (toast_id t) w))"
    by (auto simp add: drop_toast_def ids_def)
  moreover have "count_list (calls (drop_toast (toast_id t) w)) (toast_id t) = Suc c"
    using k by (simp add: drop_toast_def)
  ultimately show ?thesis
    using consistent_drop_toast [OF c] by simp
next
  case False
  with tr have c: "consistent w" and g: "toast_id t \<notin> set (ids w)"
    and k: "count_list (calls w) (toast_id t) = Suc c"
    by (simp_all add: tracked_def)
  from consistent_not_shown [OF c g] have "step (Click (toast_id t)) w = w"
    by simp
  with c g k show ?thesis by simp
qed

lemma consistent_Unmount:
  assumes "consistent w"
  shows "consistent (step (Unmount i) w) \<and> i \<notin> fst ` set (mounted (step (Unmount i) w)) \<and>
         count_list (calls (step (Unmount i) w)) i = count_list (calls w) i"
  using consistent_unmount [OF assms, of i]
  by (auto simp add: unmount_fields [OF assms])

text \<open>
  C8. Let a message be added, under an identifier not in use, to the list of a world
  reached by any admissible run, and let any admissible run follow that leaves the
  message alone. Then the message is in the list exactly as long as less than 3000 ms
  have passed since it was shown, and \<open>removeToast\<close> has been called for its identifier
  not at all before that and exactly once from then on. If the close button is clicked
  at any moment, then after any further run the message is gone, no pending timeout is
  aimed at it, and \<open>removeToast\<close> has been called for it exactly once in all: the click
  and the timer never both act. If the element is torn down at any moment, no pending
  timeout is aimed at the message afterwards and no further call of \<open>removeToast\<close> for
  it is ever made.
\<close>

theorem toast_countdown:
  assumes "adds_fresh initial es0"
    and "w0 = run es0 initial"
    and "toast_id t \<notin> set (ids w0)"
    and "adds_fresh (step (Add t) w0) es1"
    and "leaves_alone (toast_id t) es1"
    and "w1 = run es1 (step (Add t) w0)"
    and "w2 = run es2 (step (Click (toast_id t)) w1)"
    and "w3 = run es3 (step (Unmount (toast_id t)) w1)"
  shows "(t \<in> set (messages w1)) = (now w1 < now w0 + 3000)
    \<and> count_list (calls w1) (toast_id t) =
        count_list (calls w0) (toast_id t) + (if now w1 < now w0 + 3000 then 0 else 1)
    \<and> (adds_fresh (step (Click (toast_id t)) w1) es2 \<and> never_adds (toast_id t) es2 \<longrightarrow>
          toast_id t \<notin> set (ids w2) \<and>
          (\<forall>tm \<in> set (timers w2). target tm \<noteq> toast_id t) \<and>
          count_list (calls w2) (toast_id t) = count_list (calls w0) (toast_id t) + 1)
    \<and> (adds_fresh (step (Unmount (toast_id t)) w1) es3 \<and> never_adds (toast_id t) es3 \<longrightarrow>
          (\<forall>tm \<in> set (timers w3). target tm \<noteq> toast_id t) \<and>
          count_list (calls w3) (toast_id t) = count_list (calls w1) (toast_id t))"
proof -
  let ?i = "toast_id t"
  let ?tm = "\<lparr>handle = next_handle w0, due = now w0 + 3000, target = ?i\<rparr>"
  let ?c = "count_list (calls w0) ?i"
  have c0: "consistent w0"
    unfolding assms(2) by (rule consistent_run [OF consistent_initial assms(1)])
  have tg: "target ?tm = ?i" by simp
  have tr: "tracked t ?tm ?c w1"
    unfolding assms(6)
    by (rule tracked_run [OF tg tracked_Add [OF c0 assms(3)] assms(5,4)])
  then have c1: "consistent w1"
    by (simp add: tracked_def)
  have shown: "(t \<in> set (messages w1)) = (now w1 < now w0 + 3000)"
    using tr by (auto simp add: tracked_def ids_def split: if_splits)
  have count: "count_list (calls w1) ?i = ?c + (if now w1 < now w0 + 3000 then 0 else 1)"
    using tr by (simp add: tracked_def)
  have click: "?i \<notin> set (ids w2) \<and> (\<forall>tm \<in> set (timers w2). target tm \<noteq> ?i) \<and>
      count_list (calls w2) ?i = ?c + 1"
    if f: "adds_fresh (step (Click ?i) w1) es2" and n: "never_adds ?i es2"
  proof -
    note a = tracked_Click [OF tg tr]
    from a have ca: "consistent (step (Click ?i) w1)"
      and ga: "?i \<notin> set (ids (step (Click ?i) w1))"
      and ka: "count_list (calls (step (Click ?i) w1)) ?i = Suc ?c"
      by simp_all
    have c2: "consistent w2"
      unfolding assms(7) by (rule consistent_run [OF ca f])
    have g2: "?i \<notin> set (ids w2)"
      unfolding assms(7) by (rule not_shown_run [OF ca f n ga])
    from not_mounted_run [OF ca f n consistent_not_shown [OF ca ga]] ka
    have k2: "count_list (calls w2) ?i = ?c + 1"
      unfolding assms(7) by simp
    from consistent_not_mounted [OF c2 consistent_not_shown [OF c2 g2]] g2 k2
    show ?thesis by blast
  qed
  have torn: "(\<forall>tm \<in> set (timers w3). target tm \<noteq> ?i) \<and>
      count_list (calls w3) ?i = count_list (calls w1) ?i"
    if f: "adds_fresh (step (Unmount ?i) w1) es3" and n: "never_adds ?i es3"
  proof -
    note u = consistent_Unmount [OF c1, of ?i]
    from u have cu: "consistent (step (Unmount ?i) w1)"
      and mu: "?i \<notin> fst ` set (mounted (step (Unmount ?i) w1))"
      and ku: "count_list (calls (step (Unmount ?i) w1)) ?i = count_list (calls w1) ?i"
      by simp_all
    have c3: "consistent w3"
      unfolding assms(8) by (rule consistent_run [OF cu f])
    from not_mounted_run [OF cu f n mu] ku
    have m3: "?i \<notin> fst ` set (mounted w3)"
      and k3: "count_list (calls w3) ?i = count_list (calls w1) ?i"
      unfolding assms(8) by simp_all
    from consistent_not_mounted [OF c3 m3] k3 show ?thesis by blast
  qed
  from shown count click torn show ?thesis by blast
qed

lemmas toast_defs =
  toast_A_def toast_B_def toast_C_def sample_history_def sample_wait_def sample_later_def
  sample_before_def sample_shown_def sample_expired_def
  initial_def Toast_effect_def setTimeout_def addToast_def elapse_def fire_def dismiss_def
  unmount_removed_def unmount_def removeToast_def Toast_cleanup_def clearTimeout_def ids_def Let_def

theorem toast_countdown_witness:
  "adds_fresh initial sample_history
   \<and> toast_id toast_A \<notin> set (ids sample_before)
   \<and> adds_fresh (step (Add toast_A) sample_before) sample_wait
   \<and> leaves_alone (toast_id toast_A) sample_wait
   \<and> adds_fresh (step (Click (toast_id toast_A)) sample_shown) sample_later
   \<and> adds_fresh (step (Unmount (toast_id toast_A)) sample_shown) sample_later
   \<and> never_adds (toast_id toast_A) sample_later
   \<and> now sample_before = 500 \<and> now sample_shown = 2500
   \<and> toast_A \<in> set (messages sample_shown)
   \<and> count_list (calls sample_shown) (toast_id toast_A) = 0
   \<and> calls (run sample_later (step (Click (toast_id toast_A)) sample_shown)) = [''A'', ''B'', ''C'']
   \<and> count_list (calls (run sample_later (step (Click (toast_id toast_A)) sample_shown)))
         (toast_id toast_A) = count_list (calls sample_before) (toast_id toast_A) + 1
   \<and> timers (run sample_later (step (Click (toast_id toast_A)) sample_shown)) = []
   \<and> calls (run sample_later (step (Unmount (toast_id toast_A)) sample_shown)) = [''B'', ''C'']
   \<and> count_list (calls (run sample_later (step (Unmount (toast_id toast_A)) sample_shown)))
         (toast_id toast_A) = count_list (calls sample_shown) (toast_id toast_A)
   \<and> adds_fresh (step (Add toast_A) sample_before) [Elapse 3000]
   \<and> leaves_alone (toast_id toast_A) [Elapse 3000]
   \<and> now sample_expired = 3500
   \<and> toast_A \<notin> set (messages sample_expired)
   \<and> count_list (calls sample_expired) (toast_id toast_A) =
       count_list (calls sample_before) (toast_id toast_A) + 1"
proof -
  have h1: "adds_fresh initial sample_history"
    and h2: "toast_id toast_A \<notin> set (ids sample_before)"
    and h3: "adds_fresh (step (Add toast_A) sample_before) sample_wait"
    and h4: "leaves_alone (toast_id toast_A) sample_wait"
    and h5: "adds_fresh (step (Click (toast_id toast_A)) sample_shown) sample_later"
    and h6: "adds_fresh (step (Unmount (toast_id toast_A)) sample_shown) sample_later"
    and h7: "never_adds (toast_id toast_A) sample_later"
    and h8: "adds_fresh (step (Add toast_A) sample_before) [Elapse 3000]"
    and h9: "leaves_alone (toast_id toast_A) [Elapse 3000]"
    by (simp_all add: toast_defs)
  have v1: "now sample_before = 500" "now sample_shown = 2500" "now sample_expired = 3500"
    by (simp_all add: toast_defs)
  have v2: "calls (run sample_later (step (Click (toast_id toast_A)) sample_shown)) = [''A'', ''B'', ''C'']"
    "timers (run sample_later (step (Click (toast_id toast_A)) sample_shown)) = []"
    "calls (run sample_later (step (Unmount (toast_id toast_A)) sample_shown)) = [''B'', ''C'']"
    by (simp_all add: toast_defs)
  note shown =
    toast_countdown [OF h1 sample_before_def h2 h3 h4 sample_shown_def refl refl,
      of sample_later sample_later]
  note expired =
    toast_countdown [OF h1 sample_before_def h2 h8 h9 sample_expired_def refl refl,
      of "[]" "[]"]
  from shown v1 have s1: "toast_A \<in> set (messages sample_shown)"
    and s2: "count_list (calls sample_shown) (toast_id toast_A) =
             count_list (calls sample_before) (toast_id toast_A)"
    by simp_all
  have z: "count_list (calls sample_before) (toast_id toast_A) = 0"
    by (simp add: toast_defs)
  from shown h5 h7
  have s3: "count_list (calls (run sample_later (step (Click (toast_id toast_A)) sample_shown)))
         (toast_id toast_A) = count_list (calls sample_before) (toast_id toast_A) + 1"
    by blast
  from shown h6 h7
  have s4: "count_list (calls (run sample_later (step (Unmount (toast_id toast_A)) sample_shown)))
         (toast_id toast_A) = count_list (calls sample_shown) (toast_id toast_A)"
    by blast
  from expired v1 have e1: "toast_A \<notin> set (messages sample_expired)"
    and e2: "count_list (calls sample_expired) (toast_id toast_A) =
       count_list (calls sample_before) (toast_id toast_A) + 1"
    by simp_all
  from s2 z have s2': "count_list (calls sample_shown) (toast_id toast_A) = 0"
    by simp
  from h1 h2 h3 h4 h5 h6 h7 v1(1,2) s1 s2' v2(1) s3 v2(2,3) s4 h8 h9 v1(3) e1 e2
  show ?thesis
    by (intro conjI)
qed

end
